theory Spec2Isabelle
  imports Complex_Main
begin

section \<open>Job records (package jobs, model)\<close>

text \<open>
  \<^verbatim>\<open>type JobStatus string\<close> with its five constants. Instants of \<^verbatim>\<open>time.Time\<close> are
  natural numbers; a nil \<^verbatim>\<open>*time.Time\<close> and an unset \<^verbatim>\<open>gorm.DeletedAt\<close> are \<open>None\<close>.
\<close>

datatype JobStatus =
  StatusPending | StatusProcessing | StatusCompleted | StatusFailed | StatusCancelled

type_synonym time = nat

record Job =
  ID :: string
  Status :: JobStatus
  InputPath :: string
  OutputPath :: string
  DriveURL :: string
  DriveFileID :: string
  Progress :: int
  Error :: string
  OriginalName :: string
  CreatedAt :: time
  UpdatedAt :: time
  CompletedAt :: "time option"
  DeletedAt :: "time option"

section \<open>The bounded queue (package jobs, queue)\<close>

text \<open>
  The buffered channel \<^verbatim>\<open>make(chan *Job, bufferSize)\<close> is its buffer, oldest entry first,
  and its capacity; \<^verbatim>\<open>running map[string]bool\<close> is the set of keys mapped to true.
  The mutex only serialises the operations, each of which is one step here.
\<close>

record Queue =
  jobs :: "Job list"
  capacity :: nat
  running :: "string set"

datatype QueueError = ErrQueueFull | ErrJobNotFound | ErrJobCancelled

definition NewQueue :: "nat \<Rightarrow> Queue" where
  "NewQueue bufferSize = \<lparr>jobs = [], capacity = bufferSize, running = {}\<rparr>"

text \<open>
  \<^verbatim>\<open>select { case q.jobs <- job: return nil; default: return ErrQueueFull }\<close>:
  the send is taken when the buffer has room, the default branch otherwise.
  This is the behaviour of a buffered channel, one of capacity greater than 0, as the
  program's only queue \<^verbatim>\<open>jobs.NewQueue(100)\<close> is. A channel of capacity 0 has no buffer:
  there the send is taken exactly when a worker is waiting in its receive, a hand-off
  that the buffer does not describe, so the properties of \<open>Enqueue\<close> are stated for
  queues of capacity greater than 0.
\<close>

definition Enqueue :: "Queue \<Rightarrow> Job \<Rightarrow> QueueError option \<times> Queue" where
  "Enqueue q job =
     (if length (jobs q) < capacity q
      then (None, q\<lparr>jobs := jobs q @ [job]\<rparr>)
      else (Some ErrQueueFull, q))"

definition MarkRunning :: "Queue \<Rightarrow> string \<Rightarrow> Queue" where
  "MarkRunning q jobID = q\<lparr>running := insert jobID (running q)\<rparr>"

definition MarkDone :: "Queue \<Rightarrow> string \<Rightarrow> Queue" where
  "MarkDone q jobID = q\<lparr>running := running q - {jobID}\<rparr>"

definition IsRunning :: "Queue \<Rightarrow> string \<Rightarrow> bool" where
  "IsRunning q jobID = (jobID \<in> running q)"

definition Size :: "Queue \<Rightarrow> nat" where
  "Size q = length (jobs q)"

section \<open>Authentication middleware (package api, middleware)\<close>

text \<open>
  A request carries its header fields; \<^verbatim>\<open>c.GetHeader\<close> returns the first value of a
  field and the empty string when the field is absent. The middleware either lets the
  chain go on (\<^verbatim>\<open>c.Next()\<close>) or aborts with a status and an error text.
\<close>

type_synonym header = "string \<rightharpoonup> string list"

definition GetHeader :: "header \<Rightarrow> string \<Rightarrow> string" where
  "GetHeader h key = (case h key of None \<Rightarrow> [] | Some [] \<Rightarrow> [] | Some (v # _) \<Rightarrow> v)"

datatype verdict = Next | AbortWithStatusJSON nat string

definition StatusUnauthorized :: nat where
  "StatusUnauthorized = 401"

definition APIKeyAuth :: "string \<Rightarrow> header \<Rightarrow> verdict" where
  "APIKeyAuth apiKey h =
     (if apiKey = [] then Next
      else let providedKey = GetHeader h ''X-API-Key'' in
        if providedKey = [] then AbortWithStatusJSON StatusUnauthorized ''missing API key''
        else if providedKey \<noteq> apiKey then AbortWithStatusJSON StatusUnauthorized ''invalid API key''
        else Next)"

section \<open>The persistent store (package db)\<close>

text \<open>
  The table of jobs is the list of its rows in insertion order; \<open>ID\<close> is the primary
  key. Every query of the package goes through gorm, which hides soft-deleted rows
  (\<^verbatim>\<open>deleted_at IS NULL\<close>). I/O failures of the connection are outside the model:
  an operation fails only for a reason the table itself gives.
\<close>

datatype db_error = ErrRecordNotFound | ErrDuplicatedKey

text \<open>\<^verbatim>\<open>DB.Create(job)\<close>: an insert, refused when the primary key is taken.\<close>

definition db_CreateJob :: "Job list \<Rightarrow> Job \<Rightarrow> db_error option \<times> Job list" where
  "db_CreateJob tbl job =
     (if ID job \<in> set (map ID tbl) then (Some ErrDuplicatedKey, tbl) else (None, tbl @ [job]))"

text \<open>\<^verbatim>\<open>DB.First(&job, "id = ?", id)\<close>: the first visible row with that key.\<close>

definition db_GetJob :: "Job list \<Rightarrow> string \<Rightarrow> db_error + Job" where
  "db_GetJob tbl jid =
     (case filter (\<lambda>r. ID r = jid \<and> DeletedAt r = None) tbl of
        [] \<Rightarrow> Inl ErrRecordNotFound
      | r # _ \<Rightarrow> Inr r)"

text \<open>
  \<^verbatim>\<open>DB.Save(job)\<close> writes every field of the struct to the row with its primary key:
  an update of all columns, and an upsert when the update matched no visible row. In
  each case the row with that key afterwards is the struct.
\<close>

definition db_UpdateJob :: "Job list \<Rightarrow> Job \<Rightarrow> Job list" where
  "db_UpdateJob tbl job =
     (if ID job \<in> set (map ID tbl)
      then map (\<lambda>r. if ID r = ID job then job else r) tbl
      else tbl @ [job])"

text \<open>\<^verbatim>\<open>DB.Delete(&jobs.Job{}, "id = ?", id)\<close>: a soft delete, stamping the visible row.\<close>

definition db_DeleteJob :: "Job list \<Rightarrow> string \<Rightarrow> time \<Rightarrow> db_error option \<times> Job list" where
  "db_DeleteJob tbl jid now =
     (None, map (\<lambda>r. if ID r = jid \<and> DeletedAt r = None then r\<lparr>DeletedAt := Some now\<rparr> else r) tbl)"

text \<open>
  \<^verbatim>\<open>DB.Where("status IN ?", {pending, processing}).Order("created_at ASC").Find(..)\<close>;
  rows created at the same instant keep their insertion order.
\<close>

definition db_GetPendingJobs :: "Job list \<Rightarrow> db_error + Job list" where
  "db_GetPendingJobs tbl =
     Inr (sort_key CreatedAt
       (filter (\<lambda>r. DeletedAt r = None \<and> (Status r = StatusPending \<or> Status r = StatusProcessing)) tbl))"

section \<open>Local storage (package storage)\<close>

text \<open>
  The directory tree under \<open>baseDir\<close> is the set of paths of the files in it.
  \<^verbatim>\<open>filepath.Join\<close> is concatenation with separators.
\<close>

fun ext_rev :: "string \<Rightarrow> string \<Rightarrow> string" where
  "ext_rev [] acc = []"
| "ext_rev (c # cs) acc =
     (if c = CHR ''/'' then []
      else if c = CHR ''.'' then c # acc
      else ext_rev cs (c # acc))"

text \<open>\<^verbatim>\<open>filepath.Ext\<close>: the suffix from the last dot of the last path element.\<close>

definition filepath_Ext :: "string \<Rightarrow> string" where
  "filepath_Ext path = ext_rev (rev path) []"

datatype disk = DiskOK | CreateFails | CopyFails

definition SaveUpload :: "string \<Rightarrow> string set \<Rightarrow> string \<Rightarrow> string \<Rightarrow> disk \<Rightarrow> (string + string) \<times> string set" where
  "SaveUpload baseDir fs jobID filename d =
     (let savePath = baseDir @ ''/uploads/'' @ jobID @ filepath_Ext filename in
      case d of
        CreateFails \<Rightarrow> (Inl ''failed to create file'', fs)
      | CopyFails \<Rightarrow> (Inl ''failed to write file'', fs - {savePath})
      | DiskOK \<Rightarrow> (Inr savePath, insert savePath fs))"

definition GetOutputPath :: "string \<Rightarrow> string \<Rightarrow> string" where
  "GetOutputPath baseDir jobID = baseDir @ ''/outputs/'' @ jobID @ ''.mp4''"

definition DeleteFile :: "string set \<Rightarrow> string \<Rightarrow> string set" where
  "DeleteFile fs path = (if path = [] then fs else fs - {path})"

definition CleanupJob :: "string set \<Rightarrow> string \<Rightarrow> string \<Rightarrow> string set" where
  "CleanupJob fs inputPath outputPath =
     (let fs1 = (if inputPath \<noteq> [] then fs - {inputPath} else fs) in
      if outputPath \<noteq> [] then fs1 - {outputPath} else fs1)"

section \<open>The transcoder (package transcoder)\<close>

text \<open>
  One run of the external programs is given by what they do: the result of
  \<^verbatim>\<open>getDuration\<close> (ffprobe; a duration in milliseconds or an error), whether the
  stdout pipe and the start of ffmpeg fail, the lines the scanner reads from ffmpeg's
  stdout, and the result of \<^verbatim>\<open>cmd.Wait()\<close>.
\<close>

record ffmpeg_run =
  getDuration :: "string + int"
  stdout_pipe_err :: "string option"
  start_err :: "string option"
  stdout_lines :: "string list"
  wait_err :: "string option"

definition HasPrefix :: "string \<Rightarrow> string \<Rightarrow> bool" where
  "HasPrefix s p = (take (length p) s = p)"

definition TrimPrefix :: "string \<Rightarrow> string \<Rightarrow> string" where
  "TrimPrefix s p = (if HasPrefix s p then drop (length p) s else s)"

datatype num_error = ErrSyntax | ErrRange

definition digit_val :: "char \<Rightarrow> nat option" where
  "digit_val c =
     (let n = (of_char c :: nat) in if 48 \<le> n \<and> n \<le> 57 then Some (n - 48) else None)"

text \<open>The digit loop of \<^verbatim>\<open>strconv.ParseUint(s, 10, 64)\<close>.\<close>

fun parse_digits :: "string \<Rightarrow> nat \<Rightarrow> num_error + nat" where
  "parse_digits [] acc = Inr acc"
| "parse_digits (c # cs) acc =
     (case digit_val c of
        None \<Rightarrow> Inl ErrSyntax
      | Some d \<Rightarrow> if acc * 10 + d \<ge> 2 ^ 64 then Inl ErrRange else parse_digits cs (acc * 10 + d))"

text \<open>\<^verbatim>\<open>strconv.ParseInt(s, 10, 64)\<close>: an optional sign, then at least one decimal digit.\<close>

definition ParseInt :: "string \<Rightarrow> num_error + int" where
  "ParseInt s =
     (case s of
        [] \<Rightarrow> Inl ErrSyntax
      | c # cs \<Rightarrow>
          let neg = (c = CHR ''-'');
              s' = (if c = CHR ''+'' \<or> c = CHR ''-'' then cs else s)
          in if s' = [] then Inl ErrSyntax
             else (case parse_digits s' 0 of
                     Inl e \<Rightarrow> Inl e
                   | Inr un \<Rightarrow>
                       (if \<not> neg \<and> un \<ge> 2 ^ 63 then Inl ErrRange
                        else if neg \<and> un > 2 ^ 63 then Inl ErrRange
                        else Inr (if neg then - int un else int un))))"

text \<open>An \<^verbatim>\<open>int64\<close> product wraps around.\<close>

definition wrap64 :: "int \<Rightarrow> int" where
  "wrap64 x = (x + 2 ^ 63) mod 2 ^ 64 - 2 ^ 63"

text \<open>The conversion \<^verbatim>\<open>int(x)\<close> of a float discards the fraction (rounds toward zero).\<close>

definition go_int :: "real \<Rightarrow> int" where
  "go_int x = (if x < 0 then \<lceil>x\<rceil> else \<lfloor>x\<rfloor>)"

text \<open>
  \<^verbatim>\<open>progress := int((float64(timeMs) / float64(duration*1000)) * 100)\<close>, then the cap
  at 100. The \<^verbatim>\<open>float64\<close> operations are taken as exact arithmetic on reals: rounding
  to the nearest double is monotone and keeps 0 and 100, so bounds and the order of
  values are those of the program, and a value is the program's wherever the operands,
  the quotient and its hundredfold are doubles (as for a half or a quarter of a
  duration of one second).
\<close>

definition progress_of :: "int \<Rightarrow> int \<Rightarrow> int" where
  "progress_of timeMs duration =
     (let progress = go_int ((real_of_int timeMs / real_of_int (wrap64 (duration * 1000))) * 100)
      in if progress > 100 then 100 else progress)"

text \<open>The scanner loop of \<^verbatim>\<open>Transcode\<close>; \<open>onProgress\<close> may be nil.\<close>

fun scan_lines :: "(int \<Rightarrow> 's \<Rightarrow> 's) option \<Rightarrow> int \<Rightarrow> string list \<Rightarrow> 's \<Rightarrow> 's" where
  "scan_lines onProgress duration [] st = st"
| "scan_lines onProgress duration (line # rest) st =
     scan_lines onProgress duration rest
       (if HasPrefix line ''out_time_ms='' then
          (case onProgress of
             None \<Rightarrow> st
           | Some f \<Rightarrow>
               if duration > 0 then
                 (case ParseInt (TrimPrefix line ''out_time_ms='') of
                    Inr timeMs \<Rightarrow> f (progress_of timeMs duration) st
                  | Inl _ \<Rightarrow> st)
               else st)
        else st)"

definition Transcode :: "ffmpeg_run \<Rightarrow> (int \<Rightarrow> 's \<Rightarrow> 's) option \<Rightarrow> 's \<Rightarrow> string option \<times> 's" where
  "Transcode run onProgress st =
     (let duration = (case getDuration run of Inl _ \<Rightarrow> 0 | Inr d \<Rightarrow> d) in
      case stdout_pipe_err run of
        Some e \<Rightarrow> (Some (''failed to get stdout pipe: '' @ e), st)
      | None \<Rightarrow>
         (case start_err run of
            Some e \<Rightarrow> (Some (''failed to start ffmpeg: '' @ e), st)
          | None \<Rightarrow>
             (let st1 = scan_lines onProgress duration (stdout_lines run) st in
              case wait_err run of
                Some e \<Rightarrow> (Some (''ffmpeg failed: '' @ e), st1)
              | None \<Rightarrow> (None, (case onProgress of None \<Rightarrow> st1 | Some f \<Rightarrow> f 100 st1)))))"

text \<open>A callback that records each value it is given, in order.\<close>

definition record_progress :: "int \<Rightarrow> int list \<Rightarrow> int list" where
  "record_progress p ps = ps @ [p]"

section \<open>Webhook client (package webhook)\<close>

record Payload =
  pJobID :: string
  pStatus :: string
  pDriveURL :: string
  pDriveFileID :: string
  pError :: string
  pOriginalName :: string
  pCompletedAt :: time









section \<open>The process state\<close>

text \<open>
  What the handlers, the workers and the recovery routine share: the table of jobs,
  the files under the storage directory, the queue, the wall clock, the notifications
  handed to \<^verbatim>\<open>SendAsync\<close>, and the log.
\<close>

datatype log_line =
    LogEnqueued string
  | LogProcessing nat string
  | LogWorkerJobFailed nat string string
  | LogWorkerJobCompleted nat string
  | LogJobFailed string string
  | LogRecoverWarning
  | LogRecovering nat
  | LogReenqueueFailed string
  | LogWorkerStopping nat
  | LogQueueClosed nat

record world =
  rows :: "Job list"
  files :: "string set"
  queue :: Queue
  clock :: time
  baseDir :: string
  webhooks :: "(string \<times> Payload) list"
  logs :: "log_line list"

text \<open>\<^verbatim>\<open>Enqueue\<close> together with the line it logs on success.\<close>

definition Enqueue_logged :: "world \<Rightarrow> Job \<Rightarrow> QueueError option \<times> world" where
  "Enqueue_logged w job =
     (case Enqueue (queue w) job of
        (None, q) \<Rightarrow> (None, w\<lparr>queue := q, logs := logs w @ [LogEnqueued (ID job)]\<rparr>)
      | (Some e, q) \<Rightarrow> (Some e, w))"

text \<open>\<^verbatim>\<open>SendAsync\<close> starts a goroutine that sends on its own; here it is recorded.\<close>

definition SendAsync :: "world \<Rightarrow> string \<Rightarrow> Payload \<Rightarrow> world" where
  "SendAsync w url payload = w\<lparr>webhooks := webhooks w @ [(url, payload)]\<rparr>"

definition status_string :: "JobStatus \<Rightarrow> string" where
  "status_string s =
     (case s of StatusPending \<Rightarrow> ''pending'' | StatusProcessing \<Rightarrow> ''processing''
      | StatusCompleted \<Rightarrow> ''completed'' | StatusFailed \<Rightarrow> ''failed''
      | StatusCancelled \<Rightarrow> ''cancelled'')"

section \<open>The submission surface (package api, handlers)\<close>

record JobResponse =
  rID :: string
  rStatus :: JobStatus
  rProgress :: int
  rDriveURL :: string
  rError :: string
  rOriginalName :: string
  rCreatedAt :: time
  rCompletedAt :: "time option"

definition ToResponse :: "Job \<Rightarrow> JobResponse" where
  "ToResponse j = \<lparr>rID = ID j, rStatus = Status j, rProgress = Progress j, rDriveURL = DriveURL j,
     rError = Error j, rOriginalName = OriginalName j, rCreatedAt = CreatedAt j,
     rCompletedAt = CompletedAt j\<rparr>"

datatype response = ErrorJSON nat string | JobJSON nat JobResponse | MessageJSON nat string

text \<open>
  \<^verbatim>\<open>CreateJob\<close>. The request carries the name of the uploaded file, if any; the fresh
  UUID and what the disk does to the upload are given.
\<close>

definition CreateJob :: "world \<Rightarrow> string option \<Rightarrow> string \<Rightarrow> disk \<Rightarrow> response \<times> world" where
  "CreateJob w upload jobID d =
     (case upload of
        None \<Rightarrow> (ErrorJSON 400 ''no file uploaded'', w)
      | Some filename \<Rightarrow>
         (case SaveUpload (baseDir w) (files w) jobID filename d of
            (Inl _, fs) \<Rightarrow> (ErrorJSON 500 ''failed to save uploaded file'', w\<lparr>files := fs\<rparr>)
          | (Inr inputPath, fs) \<Rightarrow>
             (let job = \<lparr>ID = jobID, Status = StatusPending, InputPath = inputPath,
                         OutputPath = GetOutputPath (baseDir w) jobID, DriveURL = [],
                         DriveFileID = [], Progress = 0, Error = [], OriginalName = filename,
                         CreatedAt = clock w, UpdatedAt = clock w, CompletedAt = None,
                         DeletedAt = None\<rparr>
              in case db_CreateJob (rows w) job of
                   (Some _, _) \<Rightarrow>
                     (ErrorJSON 500 ''failed to create job'', w\<lparr>files := DeleteFile fs inputPath\<rparr>)
                 | (None, tbl) \<Rightarrow>
                    (case Enqueue_logged (w\<lparr>files := fs, rows := tbl\<rparr>) job of
                       (Some _, w') \<Rightarrow>
                         (ErrorJSON 503 ''job queue is full, please try again later'', w')
                     | (None, w') \<Rightarrow> (JobJSON 202 (ToResponse job), w')))))"

text \<open>
  \<^verbatim>\<open>DeleteJob\<close>: cancel a job that has not finished, remove its files, soft-delete it.
  First the part after the lookup, for the struct the lookup has returned.
\<close>

definition DeleteJob_found :: "world \<Rightarrow> string \<Rightarrow> Job \<Rightarrow> response \<times> world" where
  "DeleteJob_found w jobID job =
     (let w1 = (if Status job = StatusPending \<or> Status job = StatusProcessing
                then w\<lparr>rows := db_UpdateJob (rows w)
                                 (job\<lparr>Status := StatusCancelled, UpdatedAt := clock w\<rparr>)\<rparr>
                else w);
          w2 = w1\<lparr>files := CleanupJob (files w1) (InputPath job) (OutputPath job)\<rparr>
      in case db_DeleteJob (rows w2) jobID (clock w2) of
           (Some _, _) \<Rightarrow> (ErrorJSON 500 ''failed to delete job'', w2)
         | (None, tbl) \<Rightarrow> (MessageJSON 200 ''job deleted'', w2\<lparr>rows := tbl\<rparr>))"

definition DeleteJob :: "world \<Rightarrow> string \<Rightarrow> response \<times> world" where
  "DeleteJob w jobID =
     (case db_GetJob (rows w) jobID of
        Inl _ \<Rightarrow> (ErrorJSON 404 ''job not found'', w)
      | Inr job \<Rightarrow> DeleteJob_found w jobID job)"

section \<open>The processing pipeline (command server, \<^verbatim>\<open>createJobProcessor\<close>)\<close>

text \<open>
  The remote-upload collaborator, when configured, maps the local path and the display
  name to an error or to the file id and the link.
\<close>

type_synonym uploader = "string \<Rightarrow> string \<Rightarrow> string + (string \<times> string)"

text \<open>The first three statements of the processor: mark the job as processing and save it.\<close>

definition processor_begin :: "Job \<Rightarrow> world \<Rightarrow> Job \<times> world" where
  "processor_begin job w =
     (let job' = job\<lparr>Status := StatusProcessing, UpdatedAt := clock w\<rparr>
      in (job', w\<lparr>rows := db_UpdateJob (rows w) job'\<rparr>))"

definition progressCallback :: "int \<Rightarrow> Job \<times> world \<Rightarrow> Job \<times> world" where
  "progressCallback progress jw =
     (case jw of (job, w) \<Rightarrow>
        let job' = job\<lparr>Progress := progress, UpdatedAt := clock w\<rparr>
        in (job', w\<lparr>rows := db_UpdateJob (rows w) job'\<rparr>))"

text \<open>
  \<^verbatim>\<open>handleJobFailure\<close>; the error it returns is the message (read as a format string
  by \<^verbatim>\<open>fmt.Errorf\<close>).
\<close>

definition handleJobFailure :: "Job \<Rightarrow> string \<Rightarrow> string \<Rightarrow> world \<Rightarrow> string option \<times> Job \<times> world" where
  "handleJobFailure job webhookURL errMsg w =
     (let now = clock w;
          job' = job\<lparr>Status := StatusFailed, Error := errMsg, CompletedAt := Some now,
                     UpdatedAt := now\<rparr>;
          w1 = w\<lparr>logs := logs w @ [LogJobFailed (ID job) errMsg],
                  rows := db_UpdateJob (rows w) job'\<rparr>;
          w2 = SendAsync w1 webhookURL
                 \<lparr>pJobID = ID job', pStatus = status_string (Status job'), pDriveURL = [],
                  pDriveFileID = [], pError = errMsg, pOriginalName = OriginalName job',
                  pCompletedAt = now\<rparr>
      in (Some errMsg, job', w2))"

definition outputName :: "Job \<Rightarrow> string" where
  "outputName job =
     (if length (OriginalName job) > 4
      then take (length (OriginalName job) - 4) (OriginalName job) @ ''.mp4''
      else ID job @ ''.mp4'')"

text \<open>
  The end of the processor, from "Mark as completed" on; \<open>drive\<close> tells whether a
  drive client is configured.
\<close>

definition processor_complete :: "Job \<Rightarrow> bool \<Rightarrow> string \<Rightarrow> world \<Rightarrow> string option \<times> Job \<times> world" where
  "processor_complete job drive webhookURL w =
     (let now = clock w;
          job' = job\<lparr>Status := StatusCompleted, Progress := 100, CompletedAt := Some now,
                     UpdatedAt := now\<rparr>;
          w1 = w\<lparr>rows := db_UpdateJob (rows w) job'\<rparr>;
          w2 = (if drive then w1\<lparr>files := CleanupJob (files w1) (InputPath job') (OutputPath job')\<rparr>
                else w1);
          w3 = SendAsync w2 webhookURL
                 \<lparr>pJobID = ID job', pStatus = status_string (Status job'),
                  pDriveURL = DriveURL job', pDriveFileID = DriveFileID job', pError = [],
                  pOriginalName = OriginalName job', pCompletedAt = now\<rparr>
      in (None, job', w3))"

text \<open>The part between a successful transcode and the end: the upload, if configured.\<close>

definition processor_upload :: "uploader option \<Rightarrow> string \<Rightarrow> Job \<Rightarrow> world \<Rightarrow> string option \<times> Job \<times> world" where
  "processor_upload driveClient webhookURL job w =
     (case driveClient of
        None \<Rightarrow> processor_complete job False webhookURL w
      | Some UploadFile \<Rightarrow>
         (case UploadFile (OutputPath job) (outputName job) of
            Inl err \<Rightarrow> handleJobFailure job webhookURL (''drive upload failed: '' @ err) w
          | Inr (fileID, webViewLink) \<Rightarrow>
              processor_complete (job\<lparr>DriveFileID := fileID, DriveURL := webViewLink\<rparr>)
                True webhookURL w))"

text \<open>
  The function \<^verbatim>\<open>createJobProcessor\<close> returns, for the configured webhook URL and drive
  client, on one run of ffmpeg. It returns the error, the job struct and the state.
\<close>

definition processor :: "string \<Rightarrow> uploader option \<Rightarrow> ffmpeg_run \<Rightarrow> Job \<Rightarrow> world \<Rightarrow> string option \<times> Job \<times> world" where
  "processor webhookURL driveClient run job w =
     (case Transcode run (Some progressCallback) (processor_begin job w) of
        (Some err, (job', w')) \<Rightarrow>
          handleJobFailure job' webhookURL (''transcoding failed: '' @ err) w'
      | (None, (job', w')) \<Rightarrow> processor_upload driveClient webhookURL job' w')"

section \<open>The worker pool (package jobs, worker)\<close>

text \<open>
  A \<^verbatim>\<open>ProcessorFunc\<close> returns an error or nil, or panics; either way it may have changed
  the state. Nothing in the package recovers a panic, so one that leaves the processor
  runs the deferred calls of \<^verbatim>\<open>processJob\<close> and then leaves the worker's goroutine,
  which ends the process.
\<close>

datatype outcome = Returned "string option" | Panicked string

type_synonym ProcessorFunc = "Job \<Rightarrow> world \<Rightarrow> outcome \<times> world"

text \<open>
  \<^verbatim>\<open>processJob\<close>: the panic value that leaves it, if any, and the state. (The
  durations in its log lines are left out.)
\<close>

definition processJob :: "ProcessorFunc \<Rightarrow> nat \<Rightarrow> Job \<Rightarrow> world \<Rightarrow> string option \<times> world" where
  "processJob proc workerID job w =
     (let w1 = w\<lparr>logs := logs w @ [LogProcessing workerID (ID job)],
                  queue := MarkRunning (queue w) (ID job)\<rparr>
      in case proc job w1 of
           (Panicked v, w2) \<Rightarrow> (Some v, w2\<lparr>queue := MarkDone (queue w2) (ID job)\<rparr>)
         | (Returned err, w2) \<Rightarrow>
            (let w3 = w2\<lparr>logs := logs w2 @
                        [case err of
                           Some e \<Rightarrow> LogWorkerJobFailed workerID (ID job) e
                         | None \<Rightarrow> LogWorkerJobCompleted workerID (ID job)]\<rparr>
             in (None, w3\<lparr>queue := MarkDone (queue w3) (ID job)\<rparr>)))"

text \<open>
  The loop of \<^verbatim>\<open>worker\<close> (entered after the line that reports the worker's
  start), driven by the cases its \<^verbatim>\<open>select\<close> takes: the pool's context
  is done, a receive from the channel (the oldest buffered entry), or the channel is
  closed. With no case left to take, or a receive on an empty buffer, the worker
  waits.
\<close>

datatype select_case = CtxDone | Receive | Closed

datatype worker_exit = Waiting | Stopped | Crashed string

fun worker :: "ProcessorFunc \<Rightarrow> nat \<Rightarrow> select_case list \<Rightarrow> world \<Rightarrow> worker_exit \<times> world" where
  "worker proc wid [] w = (Waiting, w)"
| "worker proc wid (CtxDone # cases) w = (Stopped, w\<lparr>logs := logs w @ [LogWorkerStopping wid]\<rparr>)"
| "worker proc wid (Closed # cases) w = (Stopped, w\<lparr>logs := logs w @ [LogQueueClosed wid]\<rparr>)"
| "worker proc wid (Receive # cases) w =
     (case jobs (queue w) of
        [] \<Rightarrow> (Waiting, w)
      | job # rest \<Rightarrow>
         (case processJob proc wid job (w\<lparr>queue := (queue w)\<lparr>jobs := rest\<rparr>\<rparr>) of
            (Some v, w') \<Rightarrow> (Crashed v, w')
          | (None, w') \<Rightarrow> worker proc wid cases w'))"

text \<open>The configured processor as a \<^verbatim>\<open>ProcessorFunc\<close>: it has no panicking branch.\<close>

definition job_processor :: "string \<Rightarrow> uploader option \<Rightarrow> ffmpeg_run \<Rightarrow> ProcessorFunc" where
  "job_processor webhookURL driveClient run job w =
     (case processor webhookURL driveClient run job w of (err, job', w') \<Rightarrow> (Returned err, w'))"

section \<open>Recovery at startup (command server, \<^verbatim>\<open>recoverPendingJobs\<close>)\<close>

fun recover_each :: "Job list \<Rightarrow> world \<Rightarrow> world" where
  "recover_each [] w = w"
| "recover_each (job # rest) w =
     (let job' = job\<lparr>Status := StatusPending, Progress := 0\<rparr>;
          w1 = w\<lparr>rows := db_UpdateJob (rows w) job'\<rparr>
      in recover_each rest
           (case Enqueue_logged w1 job' of
              (Some _, w2) \<Rightarrow> w2\<lparr>logs := logs w2 @ [LogReenqueueFailed (ID job')]\<rparr>
            | (None, w2) \<Rightarrow> w2))"

definition recoverPendingJobs :: "world \<Rightarrow> world" where
  "recoverPendingJobs w =
     (case db_GetPendingJobs (rows w) of
        Inl _ \<Rightarrow> w\<lparr>logs := logs w @ [LogRecoverWarning]\<rparr>
      | Inr pendingJobs \<Rightarrow>
          if pendingJobs = [] then w
          else recover_each pendingJobs (w\<lparr>logs := logs w @ [LogRecovering (length pendingJobs)]\<rparr>))"

section \<open>Sample data\<close>

text \<open>A freshly submitted job, as the submission handler builds it.\<close>

definition job_a :: Job where
  "job_a = \<lparr>ID = ''a'', Status = StatusPending, InputPath = ''/data/uploads/a.mov'',
     OutputPath = ''/data/outputs/a.mp4'', DriveURL = [], DriveFileID = [], Progress = 0,
     Error = [], OriginalName = ''clip.mov'', CreatedAt = 1, UpdatedAt = 1,
     CompletedAt = None, DeletedAt = None\<rparr>"






text \<open>
  The times the scanner loop parses from the lines: those of the lines that start with
  \<^verbatim>\<open>out_time_ms=\<close> and carry a 64-bit integer, in order.
\<close>

definition out_times :: "string list \<Rightarrow> int list" where
  "out_times lines =
     concat (map (\<lambda>line. if HasPrefix line ''out_time_ms=''
                          then (case ParseInt (TrimPrefix line ''out_time_ms='') of
                                  Inr t \<Rightarrow> [t] | Inl _ \<Rightarrow> [])
                          else []) lines)"

definition run_b :: ffmpeg_run where
  "run_b = \<lparr>getDuration = Inr 1000, stdout_pipe_err = None, start_err = None,
     stdout_lines = [''frame=12'', ''out_time_ms=500000'', ''progress=continue'',
                     ''out_time_ms=250000'', ''out_time_ms=-500000''],
     wait_err = None\<rparr>"

definition run_c :: ffmpeg_run where
  "run_c = \<lparr>getDuration = Inr 1000, stdout_pipe_err = None, start_err = None,
     stdout_lines = [''out_time_ms=0'', ''out_time_ms=500000'', ''out_time_ms=2000000''],
     wait_err = None\<rparr>"

definition world_full :: world where
  "world_full = \<lparr>rows = [job_a], files = {''/data/uploads/a.mov''},
     queue = \<lparr>jobs = [job_a], capacity = 1, running = {}\<rparr>, clock = 7, baseDir = ''/data'',
     webhooks = [], logs = []\<rparr>"

definition job_b :: Job where
  "job_b = \<lparr>ID = ''b'', Status = StatusPending, InputPath = ''/data/uploads/b.mov'',
     OutputPath = ''/data/outputs/b.mp4'', DriveURL = [], DriveFileID = [], Progress = 0,
     Error = [], OriginalName = ''talk.mov'', CreatedAt = 7, UpdatedAt = 7,
     CompletedAt = None, DeletedAt = None\<rparr>"







text \<open>
  The records the recovery query selects, and what the recovery loop makes of one.
\<close>

definition recoverable :: "Job \<Rightarrow> bool" where
  "recoverable r \<longleftrightarrow>
     DeletedAt r = None \<and> (Status r = StatusPending \<or> Status r = StatusProcessing)"

definition reset_job :: "Job \<Rightarrow> Job" where
  "reset_job r = r\<lparr>Status := StatusPending, Progress := 0\<rparr>"

definition job_c :: Job where
  "job_c = \<lparr>ID = ''c'', Status = StatusProcessing, InputPath = ''/data/uploads/c.mov'',
     OutputPath = ''/data/outputs/c.mp4'', DriveURL = [], DriveFileID = [], Progress = 40,
     Error = [], OriginalName = ''demo.mov'', CreatedAt = 0, UpdatedAt = 3,
     CompletedAt = None, DeletedAt = None\<rparr>"

definition job_d :: Job where
  "job_d = \<lparr>ID = ''d'', Status = StatusCompleted, InputPath = ''/data/uploads/d.mov'',
     OutputPath = ''/data/outputs/d.mp4'', DriveURL = [], DriveFileID = [], Progress = 100,
     Error = [], OriginalName = ''done.mov'', CreatedAt = 2, UpdatedAt = 4,
     CompletedAt = Some 4, DeletedAt = None\<rparr>"

definition world_restart :: world where
  "world_restart = \<lparr>rows = [job_a, job_c, job_d], files = {}, queue = NewQueue 100, clock = 9,
     baseDir = ''/data'', webhooks = [], logs = []\<rparr>"

definition world_0 :: world where
  "world_0 = \<lparr>rows = [], files = {}, queue = NewQueue 100, clock = 1, baseDir = ''/data'',
     webhooks = [], logs = []\<rparr>"

text \<open>A job is submitted, cancelled while it waits, and then reaches a worker.\<close>

definition world_submitted :: world where
  "world_submitted = snd (CreateJob world_0 (Some ''clip.mov'') ''a'' DiskOK)"

definition world_cancelled :: world where
  "world_cancelled = snd (DeleteJob world_submitted ''a'')"

text \<open>A run of ffmpeg on an input file that is no longer there.\<close>

definition run_gone :: ffmpeg_run where
  "run_gone = \<lparr>getDuration = Inl ''exit status 1'', stdout_pipe_err = None, start_err = None,
     stdout_lines = [], wait_err = Some ''exit status 1''\<rparr>"

definition world_stale_run :: world where
  "world_stale_run = snd (worker (job_processor [] None run_gone) 0 [Receive] world_cancelled)"




section \<open>The life of the process\<close>

text \<open>
  The states the process can be in: the shared state, the job structs that workers
  hold between the stages of the pipeline, and the structs that delete requests have
  looked up and not yet acted on. A step is a submission, the lookup of a delete
  request, the rest of a delete request on the struct it has looked up, one stage of a
  worker's pipeline (the receive and the first save, a progress callback, the failure
  of the transcode, the upload and completion), the passing of time, or a restart of
  the process, which forgets the queue, the workers and the requests and runs the
  recovery routine on what the store holds.
\<close>

inductive reachable :: "world \<Rightarrow> Job list \<Rightarrow> Job list \<Rightarrow> bool" where
  start:
    "reachable \<lparr>rows = [], files = {}, queue = NewQueue n, clock = t, baseDir = dir,
                 webhooks = [], logs = []\<rparr> [] []"
| tick:
    "reachable w held seen \<Longrightarrow> clock w \<le> t \<Longrightarrow> reachable (w\<lparr>clock := t\<rparr>) held seen"
| submit:
    "reachable w held seen \<Longrightarrow> reachable (snd (CreateJob w upload jobID d)) held seen"
| lookup:
    "reachable w held seen \<Longrightarrow> db_GetJob (rows w) jobID = Inr job \<Longrightarrow>
     reachable w held (job # seen)"
| delete:
    "reachable w held seen \<Longrightarrow> job \<in> set seen \<Longrightarrow>
     reachable (snd (DeleteJob_found w (ID job) job)) held (remove1 job seen)"
| receive:
    "reachable w held seen \<Longrightarrow> jobs (queue w) = job # rest \<Longrightarrow>
     processor_begin job
       (w\<lparr>queue := MarkRunning ((queue w)\<lparr>jobs := rest\<rparr>) (ID job),
          logs := logs w @ [LogProcessing wid (ID job)]\<rparr>) = (job', w') \<Longrightarrow>
     reachable w' (job' # held) seen"
| progress:
    "reachable w held seen \<Longrightarrow> job \<in> set held \<Longrightarrow>
     progressCallback p (job, w) = (job', w') \<Longrightarrow>
     reachable w' (job' # remove1 job held) seen"
| transcode_failed:
    "reachable w held seen \<Longrightarrow> job \<in> set held \<Longrightarrow>
     handleJobFailure job hook (''transcoding failed: '' @ cause) w = (err, job', w') \<Longrightarrow>
     reachable (w'\<lparr>logs := logs w' @
                   [case err of Some e \<Rightarrow> LogWorkerJobFailed wid (ID job) e
                    | None \<Rightarrow> LogWorkerJobCompleted wid (ID job)],
                 queue := MarkDone (queue w') (ID job)\<rparr>) (remove1 job held) seen"
| transcoded:
    "reachable w held seen \<Longrightarrow> job \<in> set held \<Longrightarrow>
     processor_upload driveClient hook job w = (err, job', w') \<Longrightarrow>
     reachable (w'\<lparr>logs := logs w' @
                   [case err of Some e \<Rightarrow> LogWorkerJobFailed wid (ID job) e
                    | None \<Rightarrow> LogWorkerJobCompleted wid (ID job)],
                 queue := MarkDone (queue w') (ID job)\<rparr>) (remove1 job held) seen"
| restart:
    "reachable w held seen \<Longrightarrow>
     reachable (recoverPendingJobs (w\<lparr>queue := NewQueue n, webhooks := [], logs := []\<rparr>)) [] []"

text \<open>The completion time is set exactly on completed and failed records.\<close>

definition completed_at_ok :: "Job \<Rightarrow> bool" where
  "completed_at_ok r \<longleftrightarrow>
     (CompletedAt r \<noteq> None) = (Status r = StatusCompleted \<or> Status r = StatusFailed)"

definition lifecycle_inv :: "world \<Rightarrow> Job list \<Rightarrow> Job list \<Rightarrow> bool" where
  "lifecycle_inv w held seen \<longleftrightarrow>
     (\<forall>r \<in> set (rows w). completed_at_ok r) \<and>
     (\<forall>j \<in> set (jobs (queue w)). Status j = StatusPending \<and> CompletedAt j = None) \<and>
     (\<forall>j \<in> set held. Status j = StatusProcessing \<and> CompletedAt j = None) \<and>
     (\<forall>j \<in> set seen. completed_at_ok j)"

section \<open>Properties of the queue\<close>

text \<open>
  C6. For a queue over a buffered channel (capacity greater than 0): when the buffer holds
  as many entries as the capacity, an enqueue is rejected with \<open>ErrQueueFull\<close> and the
  queue is left exactly as it was, so its size and the order of its entries are unchanged;
  when the buffer has free capacity, the job is accepted at once and appended behind the
  entries already buffered.
\<close>

theorem Enqueue_full_or_free:
  assumes "0 < capacity q"
  shows
  "(length (jobs q) = capacity q \<longrightarrow>
      fst (Enqueue q job) = Some ErrQueueFull \<and> snd (Enqueue q job) = q \<and>
      Size (snd (Enqueue q job)) = Size q \<and> jobs (snd (Enqueue q job)) = jobs q) \<and>
   (length (jobs q) < capacity q \<longrightarrow>
      fst (Enqueue q job) = None \<and> jobs (snd (Enqueue q job)) = jobs q @ [job] \<and>
      Size (snd (Enqueue q job)) = Size q + 1 \<and>
      capacity (snd (Enqueue q job)) = capacity q \<and> running (snd (Enqueue q job)) = running q)"
  by (simp add: Enqueue_def Size_def)

theorem Enqueue_full_or_free_witness:
  "0 < capacity \<lparr>jobs = [job_a, job_b], capacity = 2, running = {}\<rparr> \<and>
   length (jobs \<lparr>jobs = [job_a, job_b], capacity = 2, running = {}\<rparr>) =
     capacity \<lparr>jobs = [job_a, job_b], capacity = 2, running = {}\<rparr> \<and>
   fst (Enqueue \<lparr>jobs = [job_a, job_b], capacity = 2, running = {}\<rparr> job_c) = Some ErrQueueFull \<and>
   snd (Enqueue \<lparr>jobs = [job_a, job_b], capacity = 2, running = {}\<rparr> job_c) =
     \<lparr>jobs = [job_a, job_b], capacity = 2, running = {}\<rparr> \<and>
   Size (snd (Enqueue \<lparr>jobs = [job_a, job_b], capacity = 2, running = {}\<rparr> job_c)) = 2 \<and>
   jobs (snd (Enqueue \<lparr>jobs = [job_a, job_b], capacity = 2, running = {}\<rparr> job_c)) = [job_a, job_b] \<and>
   length (jobs \<lparr>jobs = [job_a], capacity = 2, running = {}\<rparr>) <
     capacity \<lparr>jobs = [job_a], capacity = 2, running = {}\<rparr> \<and>
   fst (Enqueue \<lparr>jobs = [job_a], capacity = 2, running = {}\<rparr> job_b) = None \<and>
   jobs (snd (Enqueue \<lparr>jobs = [job_a], capacity = 2, running = {}\<rparr> job_b)) = [job_a, job_b] \<and>
   Size (snd (Enqueue \<lparr>jobs = [job_a], capacity = 2, running = {}\<rparr> job_b)) = 2"
  using Enqueue_full_or_free [of "\<lparr>jobs = [job_a, job_b], capacity = 2, running = {}\<rparr>" job_c]
    Enqueue_full_or_free [of "\<lparr>jobs = [job_a], capacity = 2, running = {}\<rparr>" job_b]
  by (simp add: Size_def)

section \<open>Properties of the authentication middleware\<close>

text \<open>
  C10. With an empty configured key every request is admitted, whatever its X-API-Key
  field. With a non-empty configured key a request is admitted exactly when the value
  read from its X-API-Key field equals the key; a request without the field is aborted
  with 401 "missing API key", and one whose value is not the key is aborted with 401
  "invalid API key". (An empty value reads the same as an absent field.)
\<close>

theorem APIKeyAuth_admits:
  "(apiKey = [] \<longrightarrow> APIKeyAuth apiKey h = Next) \<and>
   (apiKey \<noteq> [] \<longrightarrow>
      (APIKeyAuth apiKey h = Next \<longleftrightarrow> GetHeader h ''X-API-Key'' = apiKey) \<and>
      (h ''X-API-Key'' = None \<longrightarrow>
         APIKeyAuth apiKey h = AbortWithStatusJSON 401 ''missing API key'') \<and>
      (GetHeader h ''X-API-Key'' = [] \<longrightarrow>
         APIKeyAuth apiKey h = AbortWithStatusJSON 401 ''missing API key'') \<and>
      (GetHeader h ''X-API-Key'' \<noteq> [] \<and> GetHeader h ''X-API-Key'' \<noteq> apiKey \<longrightarrow>
         APIKeyAuth apiKey h = AbortWithStatusJSON 401 ''invalid API key''))"
  by (auto simp add: APIKeyAuth_def GetHeader_def StatusUnauthorized_def Let_def)

theorem APIKeyAuth_admits_witness:
  "APIKeyAuth [] Map.empty = Next \<and>
   APIKeyAuth ''k1'' [''X-API-Key'' \<mapsto> [''k1'']] = Next \<and>
   APIKeyAuth ''k1'' Map.empty = AbortWithStatusJSON 401 ''missing API key'' \<and>
   APIKeyAuth ''k1'' [''X-API-Key'' \<mapsto> [''k2'']] = AbortWithStatusJSON 401 ''invalid API key''"
  using APIKeyAuth_admits [of "[]" Map.empty]
    APIKeyAuth_admits [of "''k1''" "[''X-API-Key'' \<mapsto> [''k1'']]"]
    APIKeyAuth_admits [of "''k1''" Map.empty]
    APIKeyAuth_admits [of "''k1''" "[''X-API-Key'' \<mapsto> [''k2'']]"]
  by (simp add: GetHeader_def)

section \<open>Properties of the webhook client\<close>









section \<open>Properties of the transcoder\<close>

lemma scan_lines_record:
  "0 < d \<Longrightarrow> scan_lines (Some record_progress) d lines acc =
     acc @ map (\<lambda>t. progress_of t d) (out_times lines)"
proof (induction lines arbitrary: acc)
  case Nil
  then show ?case by (simp add: out_times_def)
next
  case (Cons line lines)
  have split: "out_times (line # lines) = out_times [line] @ out_times lines"
    by (simp add: out_times_def)
  show ?case
    using Cons.prems Cons.IH
    by (simp add: split) (simp add: out_times_def record_progress_def split: sum.splits)
qed

lemma go_int_mono:
  assumes "x \<le> y"
  shows "go_int x \<le> go_int y"
proof (cases "x < 0")
  case False
  then have "\<not> y < 0" using assms by simp
  with False show ?thesis using floor_mono[OF assms] by (simp add: go_int_def)
next
  case True
  show ?thesis
  proof (cases "y < 0")
    case True
    with \<open>x < 0\<close> show ?thesis using ceiling_mono[OF assms] by (simp add: go_int_def)
  next
    case False
    have "\<lceil>x\<rceil> \<le> 0" using \<open>x < 0\<close> by (simp add: ceiling_le_zero)
    moreover have "0 \<le> \<lfloor>y\<rfloor>" using False by simp
    ultimately have "\<lceil>x\<rceil> \<le> \<lfloor>y\<rfloor>" by linarith
    with \<open>x < 0\<close> False show ?thesis by (simp add: go_int_def)
  qed
qed

lemma go_int_nonneg: "0 \<le> x \<Longrightarrow> 0 \<le> go_int x"
  by (simp add: go_int_def)

lemma wrap64_id: "- (2 ^ 63) \<le> x \<Longrightarrow> x < 2 ^ 63 \<Longrightarrow> wrap64 x = x"
  by (simp add: wrap64_def)

lemma progress_of_le_100: "progress_of t d \<le> 100"
  by (simp add: progress_of_def Let_def)

lemma progress_of_nonneg:
  assumes "0 < d" "d * 1000 < 2 ^ 63" "0 \<le> t"
  shows "0 \<le> progress_of t d"
proof -
  have w: "wrap64 (d * 1000) = d * 1000" using assms by (intro wrap64_id) auto
  have "0 \<le> real_of_int t / real_of_int (d * 1000) * 100" using assms by simp
  then have "0 \<le> go_int (real_of_int t / real_of_int (d * 1000) * 100)" by (rule go_int_nonneg)
  then show ?thesis by (simp add: progress_of_def Let_def w)
qed

lemma progress_of_mono:
  assumes "0 < d" "d * 1000 < 2 ^ 63" "t \<le> t'"
  shows "progress_of t d \<le> progress_of t' d"
proof -
  have w: "wrap64 (d * 1000) = d * 1000" using assms by (intro wrap64_id) auto
  have "real_of_int t / real_of_int (d * 1000) * 100 \<le> real_of_int t' / real_of_int (d * 1000) * 100"
    using assms by (simp add: divide_right_mono)
  then have "go_int (real_of_int t / real_of_int (d * 1000) * 100)
           \<le> go_int (real_of_int t' / real_of_int (d * 1000) * 100)" by (rule go_int_mono)
  then show ?thesis by (auto simp add: progress_of_def Let_def w)
qed

lemma Transcode_delivered:
  assumes "getDuration run = Inr d" "0 < d"
  shows "snd (Transcode run (Some record_progress) []) =
           (if stdout_pipe_err run \<noteq> None \<or> start_err run \<noteq> None then []
            else map (\<lambda>t. progress_of t d) (out_times (stdout_lines run)) @
                 (if wait_err run = None then [100] else []))"
  using assms
  by (auto simp: Transcode_def scan_lines_record record_progress_def split: option.splits)

lemma sorted_map_mono:
  "sorted xs \<Longrightarrow> (\<And>a b. a \<le> b \<Longrightarrow> f a \<le> (f b :: int)) \<Longrightarrow> sorted (map f (xs :: int list))"
  by (induction xs) auto

text \<open>
  C9 (amended). For every sequence of lines and every positive duration whose
  thousandfold fits 64 bits: each value delivered to the progress callback is at most
  100; each is at least 0 when none of the times read from the lines is negative; and
  the values are non-decreasing when the times read are.
\<close>

theorem Transcode_progress_values:
  assumes "getDuration run = Inr d" "0 < d" "d * 1000 < 2 ^ 63"
  shows "(\<forall>p \<in> set (snd (Transcode run (Some record_progress) [])). p \<le> 100) \<and>
         ((\<forall>t \<in> set (out_times (stdout_lines run)). 0 \<le> t) \<longrightarrow>
            (\<forall>p \<in> set (snd (Transcode run (Some record_progress) [])). 0 \<le> p)) \<and>
         (sorted (out_times (stdout_lines run)) \<longrightarrow>
            sorted (snd (Transcode run (Some record_progress) [])))"
proof (intro conjI impI)
  note D = Transcode_delivered[OF assms(1,2)]
  show "\<forall>p \<in> set (snd (Transcode run (Some record_progress) [])). p \<le> 100"
    unfolding D by (auto simp: progress_of_le_100)
  show "\<forall>p \<in> set (snd (Transcode run (Some record_progress) [])). 0 \<le> p"
    if "\<forall>t \<in> set (out_times (stdout_lines run)). 0 \<le> t"
    unfolding D using that progress_of_nonneg[OF assms(2,3)] by auto
  show "sorted (snd (Transcode run (Some record_progress) []))"
    if "sorted (out_times (stdout_lines run))"
  proof -
    have "sorted (map (\<lambda>t. progress_of t d) (out_times (stdout_lines run)))"
      using that progress_of_mono[OF assms(2,3)] by (rule sorted_map_mono)
    then show ?thesis
      unfolding D by (auto simp: sorted_append progress_of_le_100)
  qed
qed

theorem Transcode_progress_values_witness:
  "snd (Transcode run_c (Some record_progress) []) = [0, 50, 100, 100] \<and>
   list_all (\<lambda>p. 0 \<le> p \<and> p \<le> 100) (snd (Transcode run_c (Some record_progress) [])) \<and>
   sorted (snd (Transcode run_c (Some record_progress) []))"
proof -
  have v: "snd (Transcode run_c (Some record_progress) []) = [0, 50, 100, 100]"
    by (simp add: Transcode_def run_c_def HasPrefix_def TrimPrefix_def ParseInt_def digit_val_def
        progress_of_def wrap64_def go_int_def record_progress_def)
  show ?thesis
    using Transcode_progress_values [of run_c 1000] v by (simp add: run_c_def)
qed

text \<open>
  C9 as stated does not hold: for a duration of one second and the times 500000,
  250000 and -500000, the callback is given 50, 25, -50 and, at the end, 100: the
  values go down, and one is below 0.
\<close>

theorem Transcode_progress_counterexample:
  "getDuration run_b = Inr 1000 \<and>
   Transcode run_b (Some record_progress) [] = (None, [50, 25, - 50, 100]) \<and>
   \<not> sorted (snd (Transcode run_b (Some record_progress) [])) \<and>
   snd (Transcode run_b (Some record_progress) []) ! 2 < 0"
  by (simp add: Transcode_def run_b_def HasPrefix_def TrimPrefix_def ParseInt_def digit_val_def
        progress_of_def wrap64_def go_int_def record_progress_def)

section \<open>Properties of the submission handler\<close>

text \<open>
  C3. A submission rejected because the queue is full is to leave no job record in the
  store and no uploaded file in local storage. The handler does answer 503 at once,
  but by then it has saved the upload and inserted the record, and it returns without
  undoing either: at a full queue of capacity 1, the submission of \<open>talk.mov\<close> under
  the id \<open>b\<close> is rejected, and afterwards the store holds the pending record \<open>b\<close>
  and the storage holds its input file.
\<close>

theorem CreateJob_queue_full_keeps_record:
  "CreateJob world_full (Some ''talk.mov'') ''b'' DiskOK =
     (ErrorJSON 503 ''job queue is full, please try again later'',
      world_full\<lparr>rows := [job_a, job_b],
                  files := {''/data/uploads/b.mov'', ''/data/uploads/a.mov''}\<rparr>) \<and>
   db_GetJob (rows (snd (CreateJob world_full (Some ''talk.mov'') ''b'' DiskOK))) ''b'' = Inr job_b \<and>
   ''/data/uploads/b.mov'' \<in> files (snd (CreateJob world_full (Some ''talk.mov'') ''b'' DiskOK))"
  by (simp add: CreateJob_def world_full_def job_a_def job_b_def SaveUpload_def filepath_Ext_def
      GetOutputPath_def db_CreateJob_def Enqueue_logged_def Enqueue_def db_GetJob_def Let_def)

text \<open>
  The neighbouring error path does undo the upload: when the insert into the store
  fails, the saved file is deleted before the handler answers 500.
\<close>

lemma CreateJob_store_failure_removes_upload:
  "CreateJob world_full (Some ''talk.mp4'') ''a'' DiskOK =
     (ErrorJSON 500 ''failed to create job'', world_full)"
  by (simp add: CreateJob_def world_full_def job_a_def SaveUpload_def filepath_Ext_def
      GetOutputPath_def db_CreateJob_def DeleteFile_def Let_def)

section \<open>Properties of the store\<close>



lemma db_UpdateJob_set:
  "set (db_UpdateJob tbl job) = insert job {r \<in> set tbl. ID r \<noteq> ID job}"
  by (auto simp: db_UpdateJob_def image_iff)

section \<open>Properties of the pipeline\<close>

lemma scan_lines_invariant:
  assumes "\<And>p s. P s \<Longrightarrow> P (f p s)" and "P s"
  shows "P (scan_lines (Some f) d lines s)"
  using assms(2)
  by (induction lines arbitrary: s) (auto split: sum.splits intro: assms(1))

lemma Transcode_invariant:
  assumes "\<And>p s. P s \<Longrightarrow> P (f p s)" and "P s"
  shows "P (snd (Transcode run (Some f) s))"
  using assms scan_lines_invariant[of P f s]
  by (auto simp: Transcode_def Let_def split: option.splits)












section \<open>Properties of the recovery routine\<close>

lemma reset_job_simps [simp]:
  "ID (reset_job r) = ID r" "reset_job (reset_job r) = reset_job r"
  "Status (reset_job r) = StatusPending" "Progress (reset_job r) = 0"
  "CompletedAt (reset_job r) = CompletedAt r"
  by (simp_all add: reset_job_def)

lemma db_UpdateJob_present:
  assumes "distinct (map ID tbl)" "j \<in> set tbl" "ID j' = ID j"
  shows "db_UpdateJob tbl j' = map (\<lambda>r. if r = j then j' else r) tbl"
proof -
  have "ID j' \<in> set (map ID tbl)" using assms(2,3) by force
  moreover have "\<And>r. r \<in> set tbl \<Longrightarrow> (ID r = ID j') = (r = j)"
    using assms by (auto simp: distinct_map inj_on_def)
  ultimately show ?thesis by (simp add: db_UpdateJob_def cong: map_cong)
qed

lemma recover_each_rows:
  "rows (recover_each js w) = foldl (\<lambda>t j. db_UpdateJob t (reset_job j)) (rows w) js"
  by (induction js arbitrary: w)
     (auto simp: Let_def Enqueue_logged_def reset_job_def split: prod.splits option.splits)

lemma fold_reset:
  assumes "distinct (map ID tbl)" "distinct js" "set js \<subseteq> set tbl"
  shows "foldl (\<lambda>t j. db_UpdateJob t (reset_job j)) tbl js =
         map (\<lambda>r. if r \<in> set js then reset_job r else r) tbl"
  using assms
proof (induction js arbitrary: tbl)
  case Nil
  then show ?case by simp
next
  case (Cons j js)
  let ?tbl = "map (\<lambda>r. if r = j then reset_job j else r) tbl"
  have step: "db_UpdateJob tbl (reset_job j) = ?tbl"
    using Cons.prems by (intro db_UpdateJob_present) auto
  have ids: "map ID ?tbl = map ID tbl" by (auto simp: comp_def)
  have d: "distinct (map ID ?tbl)" using Cons.prems(1) by (simp only: ids)
  have sub: "set js \<subseteq> set ?tbl" using Cons.prems(2,3) by force
  have "foldl (\<lambda>t j. db_UpdateJob t (reset_job j)) ?tbl js =
        map (\<lambda>r. if r \<in> set js then reset_job r else r) ?tbl"
    using Cons.IH[OF d _ sub] Cons.prems(2) by simp
  then show ?case by (simp add: step comp_def cong: map_cong)
qed

lemma recover_each_queue:
  "queue (recover_each js w) =
     (queue w)\<lparr>jobs := jobs (queue w) @
        take (capacity (queue w) - length (jobs (queue w))) (map reset_job js)\<rparr>"
proof (induction js arbitrary: w)
  case Nil
  then show ?case by simp
next
  case (Cons j js)
  show ?case
  proof (cases "length (jobs (queue w)) < capacity (queue w)")
    case True
    then obtain n where n: "capacity (queue w) - length (jobs (queue w)) = Suc n"
      by (metis Suc_diff_Suc)
    then have n': "capacity (queue w) - Suc (length (jobs (queue w))) = n" by simp
    show ?thesis using True
      by (simp add: Cons.IH Let_def Enqueue_logged_def Enqueue_def reset_job_def[symmetric] n n')
  next
    case False
    then show ?thesis
      by (simp add: Cons.IH Let_def Enqueue_logged_def Enqueue_def reset_job_def[symmetric])
  qed
qed

lemma recover_each_logs:
  "logs (recover_each js w) = logs w @
     map (\<lambda>j. LogEnqueued (ID j)) (take (capacity (queue w) - length (jobs (queue w))) js) @
     map (\<lambda>j. LogReenqueueFailed (ID j)) (drop (capacity (queue w) - length (jobs (queue w))) js)"
proof (induction js arbitrary: w)
  case Nil
  then show ?case by simp
next
  case (Cons j js)
  show ?case
  proof (cases "length (jobs (queue w)) < capacity (queue w)")
    case True
    then obtain n where n: "capacity (queue w) - length (jobs (queue w)) = Suc n"
      by (metis Suc_diff_Suc)
    then have n': "capacity (queue w) - Suc (length (jobs (queue w))) = n" by simp
    show ?thesis using True
      by (simp add: Cons.IH Let_def Enqueue_logged_def Enqueue_def n n')
  next
    case False
    then show ?thesis
      by (simp add: Cons.IH Let_def Enqueue_logged_def Enqueue_def)
  qed
qed

lemma pending_query:
  "db_GetPendingJobs tbl = Inr (sort_key CreatedAt (filter recoverable tbl))"
proof -
  have "recoverable = (\<lambda>r. DeletedAt r = None \<and> (Status r = StatusPending \<or> Status r = StatusProcessing))"
    by (rule ext) (simp add: recoverable_def)
  then show ?thesis by (simp add: db_GetPendingJobs_def)
qed

lemma recoverPendingJobs_rows:
  assumes "distinct (map ID (rows w))"
  shows "rows (recoverPendingJobs w) =
           map (\<lambda>r. if recoverable r then reset_job r else r) (rows w)"
proof -
  let ?js = "sort_key CreatedAt (filter recoverable (rows w))"
  have dr: "distinct (rows w)" using assms by (simp add: distinct_map)
  have djs: "distinct ?js" using dr by simp
  have sub: "set ?js \<subseteq> set (rows w)" by auto
  have mem: "\<And>r. r \<in> set ?js \<longleftrightarrow> r \<in> set (rows w) \<and> recoverable r" by auto
  have rows_each: "rows (recover_each ?js w') =
      map (\<lambda>r. if recoverable r then reset_job r else r) (rows w)" if "rows w' = rows w" for w'
    unfolding recover_each_rows that fold_reset[OF assms djs sub]
    by (rule map_cong) (auto simp: mem)
  show ?thesis
  proof (cases "?js = []")
    case True
    then have "\<And>r. r \<in> set (rows w) \<Longrightarrow> \<not> recoverable r"
      using mem by (metis empty_iff empty_set)
    then have "map (\<lambda>r. if recoverable r then reset_job r else r) (rows w) = rows w"
      by (simp add: map_idI)
    then show ?thesis using True by (simp add: recoverPendingJobs_def pending_query)
  next
    case False
    then show ?thesis by (simp add: recoverPendingJobs_def pending_query rows_each)
  qed
qed

lemma recoverPendingJobs_queue:
  "jobs (queue (recoverPendingJobs w)) =
     jobs (queue w) @
     take (capacity (queue w) - length (jobs (queue w)))
       (map reset_job (sort_key CreatedAt (filter recoverable (rows w))))"
  by (cases "sort_key CreatedAt (filter recoverable (rows w)) = []")
     (simp_all add: recoverPendingJobs_def pending_query recover_each_queue)

text \<open>
  C4. On a table with its primary key (no two rows share an id), the recovery routine
  selects exactly the visible records whose status is pending or processing; each of
  them is saved with status pending and progress 0 and then offered to the queue, in
  the order of creation, as far as the queue has room; every other record, in
  particular every completed, failed or cancelled one, is left as it was.
\<close>

theorem recoverPendingJobs_resets_nonterminal:
  assumes "distinct (map ID (rows w))"
  shows "rows (recoverPendingJobs w) =
           map (\<lambda>r. if recoverable r then reset_job r else r) (rows w) \<and>
         jobs (queue (recoverPendingJobs w)) =
           jobs (queue w) @
           take (capacity (queue w) - length (jobs (queue w)))
             (map reset_job (sort_key CreatedAt (filter recoverable (rows w)))) \<and>
         (\<forall>r \<in> set (rows w). \<not> recoverable r \<longrightarrow> r \<in> set (rows (recoverPendingJobs w)))"
proof -
  note R = recoverPendingJobs_rows[OF assms]
  have U: "\<forall>r \<in> set (rows w). \<not> recoverable r \<longrightarrow> r \<in> set (rows (recoverPendingJobs w))"
    unfolding R by force
  show ?thesis using R recoverPendingJobs_queue[of w] U by blast
qed

theorem recoverPendingJobs_resets_nonterminal_witness:
  "distinct (map ID (rows world_restart)) \<and>
   rows (recoverPendingJobs world_restart) =
     [job_a, job_c\<lparr>Status := StatusPending, Progress := 0\<rparr>, job_d] \<and>
   jobs (queue (recoverPendingJobs world_restart)) =
     [job_c\<lparr>Status := StatusPending, Progress := 0\<rparr>, job_a] \<and>
   job_d \<in> set (rows (recoverPendingJobs world_restart))"
proof -
  have ids: "ID job_a = ''a''" "ID job_c = ''c''" "ID job_d = ''d''"
    by (simp_all add: job_a_def job_c_def job_d_def)
  have sel: "recoverable job_a" "recoverable job_c" "\<not> recoverable job_d"
    by (simp_all add: recoverable_def job_a_def job_c_def job_d_def)
  have at: "CreatedAt job_a = 1" "CreatedAt job_c = 0"
    by (simp_all add: job_a_def job_c_def)
  have a: "reset_job job_a = job_a" by (simp add: reset_job_def job_a_def)
  have rw: "rows world_restart = [job_a, job_c, job_d]" "jobs (queue world_restart) = []"
    "capacity (queue world_restart) = 100"
    by (simp_all add: world_restart_def NewQueue_def)
  have d: "distinct (map ID (rows world_restart))" by (simp add: rw ids)
  show ?thesis
    using recoverPendingJobs_resets_nonterminal [OF d] d
    by (simp add: rw sel at a) (simp add: reset_job_def)
qed

section \<open>The cancel scenario\<close>

lemma world_submitted_eq:
  "world_submitted = \<lparr>rows = [job_a], files = {''/data/uploads/a.mov''},
     queue = \<lparr>jobs = [job_a], capacity = 100, running = {}\<rparr>, clock = 1, baseDir = ''/data'',
     webhooks = [], logs = [LogEnqueued ''a'']\<rparr>"
  by (simp add: world_submitted_def world_0_def CreateJob_def SaveUpload_def filepath_Ext_def
      GetOutputPath_def db_CreateJob_def Enqueue_logged_def Enqueue_def NewQueue_def Let_def job_a_def)

lemma world_cancelled_eq:
  "world_cancelled = \<lparr>rows = [job_a\<lparr>Status := StatusCancelled, DeletedAt := Some 1\<rparr>], files = {},
     queue = \<lparr>jobs = [job_a], capacity = 100, running = {}\<rparr>, clock = 1, baseDir = ''/data'',
     webhooks = [], logs = [LogEnqueued ''a'']\<rparr>"
proof -
  have g: "db_GetJob [job_a] ''a'' = Inr job_a" by (simp add: db_GetJob_def job_a_def)
  have s: "Status job_a = StatusPending" "InputPath job_a = ''/data/uploads/a.mov''"
     "OutputPath job_a = ''/data/outputs/a.mp4''" "ID job_a = ''a''" "UpdatedAt job_a = 1"
     "DeletedAt job_a = None"
    by (simp_all add: job_a_def)
  show ?thesis
    by (simp add: world_cancelled_def world_submitted_eq DeleteJob_def DeleteJob_found_def g s Let_def
        db_UpdateJob_def db_DeleteJob_def CleanupJob_def)
qed

lemma run_gone_fails:
  "Transcode run_gone (Some progressCallback) jw = (Some ''ffmpeg failed: exit status 1'', jw)"
  by (simp add: Transcode_def run_gone_def)

lemma world_stale_run_rows:
  "rows world_stale_run =
     [job_a\<lparr>Status := StatusFailed,
            Error := ''transcoding failed: ffmpeg failed: exit status 1'',
            CompletedAt := Some 1\<rparr>]"
proof -
  have s: "ID job_a = ''a''" "UpdatedAt job_a = 1" by (simp_all add: job_a_def)
  show ?thesis
    by (simp add: world_stale_run_def world_cancelled_eq processJob_def job_processor_def
        processor_def processor_begin_def run_gone_fails handleJobFailure_def SendAsync_def
        db_UpdateJob_def MarkRunning_def MarkDone_def Let_def s)
qed

section \<open>Cancelled records\<close>

lemma db_GetJob_Inr:
  assumes "db_GetJob tbl jid = Inr r"
  shows "r \<in> set tbl \<and> ID r = jid \<and> DeletedAt r = None"
proof -
  obtain rs where "filter (\<lambda>r. ID r = jid \<and> DeletedAt r = None) tbl = r # rs"
    using assms by (auto simp: db_GetJob_def split: list.splits)
  then have "r \<in> set (filter (\<lambda>r. ID r = jid \<and> DeletedAt r = None) tbl)" by simp
  then show ?thesis by simp
qed








section \<open>Properties of the worker\<close>





section \<open>The completion time\<close>

lemma db_UpdateJob_subset: "set (db_UpdateJob tbl job) \<subseteq> insert job (set tbl)"
  by (auto simp: db_UpdateJob_def)

lemma db_UpdateJob_all:
  "P job \<Longrightarrow> \<forall>r \<in> set tbl. P r \<Longrightarrow> \<forall>r \<in> set (db_UpdateJob tbl job). P r"
  using db_UpdateJob_subset by blast

lemma remove1_all: "\<forall>j \<in> set xs. P j \<Longrightarrow> \<forall>j \<in> set (remove1 x xs). P j"
  by (auto dest: notin_set_remove1)

lemma inv_submit:
  assumes "lifecycle_inv w held seen"
  shows "lifecycle_inv (snd (CreateJob w upload jobID d)) held seen"
  using assms
  by (auto simp: lifecycle_inv_def CreateJob_def SaveUpload_def db_CreateJob_def
      Enqueue_logged_def Enqueue_def Let_def completed_at_ok_def
      split: option.splits disk.splits if_splits)

lemma inv_lookup:
  assumes "lifecycle_inv w held seen" "db_GetJob (rows w) jobID = Inr job"
  shows "lifecycle_inv w held (job # seen)"
  using assms db_GetJob_Inr[OF assms(2)] by (simp add: lifecycle_inv_def)

lemma inv_delete:
  assumes "lifecycle_inv w held seen" "job \<in> set seen"
  shows "lifecycle_inv (snd (DeleteJob_found w jobID job)) held (remove1 job seen)"
proof -
  have ok: "completed_at_ok job" using assms by (simp add: lifecycle_inv_def)
  let ?job = "job\<lparr>Status := StatusCancelled, UpdatedAt := clock w\<rparr>"
  have c: "Status job = StatusPending \<or> Status job = StatusProcessing \<Longrightarrow> completed_at_ok ?job"
    using ok by (auto simp: completed_at_ok_def)
  have all: "\<forall>r \<in> set (rows w). completed_at_ok r" using assms by (simp add: lifecycle_inv_def)
  have upd: "Status job = StatusPending \<or> Status job = StatusProcessing \<Longrightarrow>
             \<forall>r \<in> set (db_UpdateJob (rows w) ?job). completed_at_ok r"
    using db_UpdateJob_all[of completed_at_ok ?job "rows w"] c all by blast
  have del: "completed_at_ok (r\<lparr>DeletedAt := x\<rparr>) = completed_at_ok r" for r x
    by (simp add: completed_at_ok_def)
  have rest: "\<forall>j \<in> set (remove1 job seen). completed_at_ok j"
    using assms(1) by (intro remove1_all) (simp add: lifecycle_inv_def)
  show ?thesis
    using assms(1) upd all rest
    by (auto simp: DeleteJob_found_def Let_def db_DeleteJob_def lifecycle_inv_def del)
qed

lemma inv_receive:
  assumes "lifecycle_inv w held seen" "jobs (queue w) = job # rest"
    and "processor_begin job
       (w\<lparr>queue := MarkRunning ((queue w)\<lparr>jobs := rest\<rparr>) (ID job),
          logs := logs w @ [LogProcessing wid (ID job)]\<rparr>) = (job', w')"
  shows "lifecycle_inv w' (job' # held) seen"
proof -
  have j: "Status job = StatusPending" "CompletedAt job = None"
    using assms(1,2) by (simp_all add: lifecycle_inv_def)
  have j': "job' = job\<lparr>Status := StatusProcessing, UpdatedAt := clock w\<rparr>"
    and r': "rows w' = db_UpdateJob (rows w) job'" and q': "jobs (queue w') = rest"
    using assms(3) by (auto simp: processor_begin_def Let_def MarkRunning_def)
  have ok: "completed_at_ok job'" using j by (simp add: j' completed_at_ok_def)
  have "\<forall>r \<in> set (rows w'). completed_at_ok r"
    unfolding r' using ok assms(1) by (intro db_UpdateJob_all) (simp_all add: lifecycle_inv_def)
  then show ?thesis
    using assms(1,2) j by (simp add: lifecycle_inv_def q') (simp add: j')
qed

lemma inv_progress:
  assumes "lifecycle_inv w held seen" "job \<in> set held"
    and "progressCallback p (job, w) = (job', w')"
  shows "lifecycle_inv w' (job' # remove1 job held) seen"
proof -
  have j: "Status job = StatusProcessing" "CompletedAt job = None"
    using assms(1,2) by (simp_all add: lifecycle_inv_def)
  have j': "job' = job\<lparr>Progress := p, UpdatedAt := clock w\<rparr>"
    and r': "rows w' = db_UpdateJob (rows w) job'" and q': "queue w' = queue w"
    using assms(3) by (auto simp: progressCallback_def Let_def)
  have ok: "completed_at_ok job'" using j by (simp add: j' completed_at_ok_def)
  have "\<forall>r \<in> set (rows w'). completed_at_ok r"
    unfolding r' using ok assms(1) by (intro db_UpdateJob_all) (simp_all add: lifecycle_inv_def)
  moreover have "\<forall>j \<in> set (remove1 job held). Status j = StatusProcessing \<and> CompletedAt j = None"
    using assms(1) by (intro remove1_all) (simp add: lifecycle_inv_def)
  ultimately show ?thesis
    using assms(1) j by (simp add: lifecycle_inv_def q') (simp add: j')
qed

lemma inv_finish:
  assumes "lifecycle_inv w held seen" "completed_at_ok job'"
    "rows w' = db_UpdateJob (rows w) job'" "jobs (queue w') = jobs (queue w)"
  shows "lifecycle_inv (w'\<lparr>logs := l, queue := MarkDone (queue w') i\<rparr>) (remove1 job held) seen"
proof -
  have "\<forall>r \<in> set (rows w'). completed_at_ok r"
    unfolding assms(3) using assms(1,2) by (intro db_UpdateJob_all) (simp_all add: lifecycle_inv_def)
  moreover have "\<forall>j \<in> set (remove1 job held). Status j = StatusProcessing \<and> CompletedAt j = None"
    using assms(1) by (intro remove1_all) (simp add: lifecycle_inv_def)
  ultimately show ?thesis
    using assms(1,4) by (simp add: lifecycle_inv_def MarkDone_def)
qed

lemma inv_failed:
  assumes "lifecycle_inv w held seen" "handleJobFailure job hook msg w = (err, job', w')"
  shows "lifecycle_inv (w'\<lparr>logs := l, queue := MarkDone (queue w') i\<rparr>) (remove1 job held) seen"
proof (rule inv_finish[OF assms(1)])
  show "completed_at_ok job'" "rows w' = db_UpdateJob (rows w) job'"
    "jobs (queue w') = jobs (queue w)"
    using assms(2) by (auto simp: handleJobFailure_def Let_def SendAsync_def completed_at_ok_def)
qed

lemma inv_completed:
  assumes "lifecycle_inv w held seen" "processor_complete job drive hook w = (err, job', w')"
  shows "lifecycle_inv (w'\<lparr>logs := l, queue := MarkDone (queue w') i\<rparr>) (remove1 job0 held) seen"
proof (rule inv_finish[OF assms(1)])
  show "completed_at_ok job'" "rows w' = db_UpdateJob (rows w) job'"
    "jobs (queue w') = jobs (queue w)"
    using assms(2) by (auto simp: processor_complete_def Let_def SendAsync_def completed_at_ok_def)
qed

lemma inv_transcoded:
  assumes "lifecycle_inv w held seen" "processor_upload driveClient hook job w = (err, job', w')"
  shows "lifecycle_inv (w'\<lparr>logs := l, queue := MarkDone (queue w') i\<rparr>) (remove1 job held) seen"
  using assms inv_failed inv_completed
  by (auto simp: processor_upload_def split: option.splits sum.splits)

lemma inv_recover_each:
  assumes "\<forall>j \<in> set js. CompletedAt j = None" "lifecycle_inv w [] []"
  shows "lifecycle_inv (recover_each js w) [] []"
  using assms
proof (induction js arbitrary: w)
  case Nil
  then show ?case by simp
next
  case (Cons j js)
  let ?j = "j\<lparr>Status := StatusPending, Progress := 0\<rparr>"
  let ?w1 = "w\<lparr>rows := db_UpdateJob (rows w) ?j\<rparr>"
  let ?w2 = "case Enqueue_logged ?w1 ?j of
              (Some _, w2) \<Rightarrow> w2\<lparr>logs := logs w2 @ [LogReenqueueFailed (ID ?j)]\<rparr>
            | (None, w2) \<Rightarrow> w2"
  have ok: "completed_at_ok ?j" using Cons.prems(1) by (simp add: completed_at_ok_def)
  have "\<forall>r \<in> set (rows ?w1). completed_at_ok r"
    using ok Cons.prems(2) db_UpdateJob_all[of completed_at_ok ?j "rows w"]
    by (simp add: lifecycle_inv_def)
  then have "lifecycle_inv ?w2 [] []"
    using Cons.prems
    by (auto simp: lifecycle_inv_def Enqueue_logged_def Enqueue_def
        split: prod.splits option.splits if_splits)
  then have "lifecycle_inv (recover_each js ?w2) [] []"
    using Cons.IH Cons.prems(1) by simp
  then show ?case by (simp add: Let_def)
qed

lemma inv_restart:
  assumes "lifecycle_inv w held seen"
  shows "lifecycle_inv
           (recoverPendingJobs (w\<lparr>queue := NewQueue n, webhooks := [], logs := []\<rparr>)) [] []"
proof -
  let ?w = "w\<lparr>queue := NewQueue n, webhooks := [], logs := []\<rparr>"
  let ?js = "sort_key CreatedAt (filter recoverable (rows ?w))"
  have i0: "lifecycle_inv ?w [] []" using assms by (simp add: lifecycle_inv_def NewQueue_def)
  have il: "lifecycle_inv (?w\<lparr>logs := l\<rparr>) [] []" for l
    using i0 by (simp add: lifecycle_inv_def)
  have "\<forall>j \<in> set ?js. CompletedAt j = None"
    using assms by (auto simp: lifecycle_inv_def recoverable_def completed_at_ok_def)
  then have "lifecycle_inv (recover_each ?js (?w\<lparr>logs := l\<rparr>)) [] []" for l
    using il by (intro inv_recover_each) simp_all
  then show ?thesis
    using i0 by (simp add: recoverPendingJobs_def pending_query)
qed

lemma reachable_inv: "reachable w held seen \<Longrightarrow> lifecycle_inv w held seen"
proof (induction rule: reachable.induct)
  case (start n t dir)
  then show ?case by (simp add: lifecycle_inv_def NewQueue_def)
next
  case (tick w held seen t)
  then show ?case by (simp add: lifecycle_inv_def)
next
  case (submit w held seen upload jobID d)
  then show ?case by (simp add: inv_submit)
next
  case (lookup w held seen jobID job)
  then show ?case using inv_lookup by blast
next
  case (delete w held seen job)
  then show ?case using inv_delete by blast
next
  case (receive w held seen job rest wid job' w')
  then show ?case using inv_receive by blast
next
  case (progress w held seen job p job' w')
  then show ?case using inv_progress by blast
next
  case (transcode_failed w held seen job hook cause err job' w' wid)
  then show ?case using inv_failed by blast
next
  case (transcoded w held seen job driveClient hook err job' w' wid)
  then show ?case using inv_transcoded by blast
next
  case (restart w held seen n)
  then show ?case using inv_restart by blast
qed

text \<open>
  A whole delete request, and a worker's handling of one received job as \<open>worker\<close>
  composes it from the configured processor, are sequences of these steps.
\<close>

lemma reachable_DeleteJob:
  assumes "reachable w held seen"
  shows "reachable (snd (DeleteJob w jobID)) held seen"
proof (cases "db_GetJob (rows w) jobID")
  case (Inl e)
  then show ?thesis using assms by (simp add: DeleteJob_def)
next
  case (Inr job)
  have id: "ID job = jobID" using db_GetJob_Inr[OF Inr] by simp
  have "reachable (snd (DeleteJob_found w (ID job) job)) held (remove1 job (job # seen))"
    by (rule reachable.delete[OF reachable.lookup[OF assms Inr]]) simp
  then show ?thesis using Inr id by (simp add: DeleteJob_def)
qed

lemma reachable_worker_run:
  assumes "reachable w held seen" "jobs (queue w) = job # rest"
  shows "reachable (snd (worker (job_processor hook driveClient run) wid [Receive] w)) held seen"
proof -
  let ?w1 = "w\<lparr>queue := MarkRunning ((queue w)\<lparr>jobs := rest\<rparr>) (ID job),
                 logs := logs w @ [LogProcessing wid (ID job)]\<rparr>"
  let ?P = "\<lambda>jw. reachable (snd jw) (fst jw # held) seen \<and> ID (fst jw) = ID job"
  obtain jb wb where B: "processor_begin job ?w1 = (jb, wb)" by (cases "processor_begin job ?w1")
  have idb: "ID jb = ID job" using B by (auto simp: processor_begin_def Let_def)
  have P0: "?P (processor_begin job ?w1)"
    using reachable.receive[OF assms B] idb by (simp add: B)
  have step: "?P (progressCallback p jw)" if "?P jw" for p jw
  proof -
    obtain j w0 where jw: "jw = (j, w0)" by (cases jw)
    obtain j' w' where pc: "progressCallback p (j, w0) = (j', w')"
      by (cases "progressCallback p (j, w0)")
    have "reachable w' (j' # remove1 j (j # held)) seen"
      using that by (intro reachable.progress[OF _ _ pc]) (simp_all add: jw)
    moreover have "ID j' = ID j" using pc by (auto simp: progressCallback_def Let_def)
    ultimately show ?thesis using that by (simp add: jw pc)
  qed
  obtain e j2 w2 where T: "Transcode run (Some progressCallback) (processor_begin job ?w1) = (e, j2, w2)"
    by (metis prod_cases3)
  have "?P (snd (Transcode run (Some progressCallback) (processor_begin job ?w1)))"
    by (rule Transcode_invariant[where P = ?P]) (use step P0 in auto)
  then have R2: "reachable w2 (j2 # held) seen" and id2: "ID j2 = ID job" by (simp_all add: T)
  obtain err j3 w3 where F: "processor hook driveClient run job ?w1 = (err, j3, w3)"
    by (metis prod_cases3)
  let ?line = "case err of Some e \<Rightarrow> LogWorkerJobFailed wid (ID job) e
               | None \<Rightarrow> LogWorkerJobCompleted wid (ID job)"
  let ?end = "w3\<lparr>logs := logs w3 @ [?line], queue := MarkDone (queue w3) (ID job)\<rparr>"
  have "reachable ?end (remove1 j2 (j2 # held)) seen"
  proof (cases e)
    case (Some cause)
    then have "handleJobFailure j2 hook (''transcoding failed: '' @ cause) w2 = (err, j3, w3)"
      using F T by (simp add: processor_def)
    from reachable.transcode_failed[OF R2 _ this, of wid] show ?thesis unfolding id2 by simp
  next
    case None
    then have "processor_upload driveClient hook j2 w2 = (err, j3, w3)"
      using F T by (simp add: processor_def)
    from reachable.transcoded[OF R2 _ this, of wid] show ?thesis unfolding id2 by simp
  qed
  then have E: "reachable ?end held seen" by simp
  have eq: "(w\<lparr>queue := (queue w)\<lparr>jobs := rest\<rparr>\<rparr>)
              \<lparr>logs := logs (w\<lparr>queue := (queue w)\<lparr>jobs := rest\<rparr>\<rparr>) @ [LogProcessing wid (ID job)],
               queue := MarkRunning (queue (w\<lparr>queue := (queue w)\<lparr>jobs := rest\<rparr>\<rparr>)) (ID job)\<rparr> = ?w1"
    by simp
  have "processJob (job_processor hook driveClient run) wid job (w\<lparr>queue := (queue w)\<lparr>jobs := rest\<rparr>\<rparr>) =
          (None, ?end)"
    unfolding processJob_def Let_def eq by (simp add: job_processor_def F)
  then have "worker (job_processor hook driveClient run) wid [Receive] w = (Waiting, ?end)"
    by (simp add: assms(2))
  then show ?thesis using E by simp
qed

text \<open>
  C7. In every state the process reaches, each job record (the stored rows, the
  entries of the queue, the structs held by workers and those looked up by delete
  requests) has a completion time exactly when its status is completed or failed.
\<close>

theorem completed_at_iff_finished:
  assumes "reachable w held seen"
  shows "\<forall>r \<in> set (rows w) \<union> set (jobs (queue w)) \<union> set held \<union> set seen.
           (CompletedAt r \<noteq> None) = (Status r = StatusCompleted \<or> Status r = StatusFailed)"
  using reachable_inv[OF assms]
  by (auto simp: lifecycle_inv_def completed_at_ok_def)

theorem completed_at_iff_finished_witness:
  "reachable world_cancelled [] [] \<and> reachable world_stale_run [] [] \<and>
   Status (hd (rows world_cancelled)) = StatusCancelled \<and>
   CompletedAt (hd (rows world_cancelled)) = None \<and>
   Status (hd (rows world_stale_run)) = StatusFailed \<and>
   CompletedAt (hd (rows world_stale_run)) \<noteq> None"
proof -
  have r0: "reachable world_0 [] []"
    unfolding world_0_def by (rule reachable.start)
  have r1: "reachable world_submitted [] []"
    unfolding world_submitted_def using r0 by (rule reachable.submit)
  have r2: "reachable world_cancelled [] []"
    unfolding world_cancelled_def using r1 by (rule reachable_DeleteJob)
  have q: "jobs (queue world_cancelled) = job_a # []" by (simp add: world_cancelled_eq)
  have r3: "reachable world_stale_run [] []"
    unfolding world_stale_run_def using r2 q by (rule reachable_worker_run)
  have s2: "Status (hd (rows world_cancelled)) = StatusCancelled"
    by (simp add: world_cancelled_eq)
  have s3: "Status (hd (rows world_stale_run)) = StatusFailed"
    by (simp add: world_stale_run_rows)
  have m2: "hd (rows world_cancelled) \<in> set (rows world_cancelled)"
    by (simp add: world_cancelled_eq)
  have m3: "hd (rows world_stale_run) \<in> set (rows world_stale_run)"
    by (simp add: world_stale_run_rows)
  have "(CompletedAt (hd (rows world_cancelled)) \<noteq> None) =
        (Status (hd (rows world_cancelled)) = StatusCompleted \<or>
         Status (hd (rows world_cancelled)) = StatusFailed)"
    using completed_at_iff_finished[OF r2] m2 by blast
  then have c2: "CompletedAt (hd (rows world_cancelled)) = None"
    by (simp add: s2)
  have "(CompletedAt (hd (rows world_stale_run)) \<noteq> None) =
        (Status (hd (rows world_stale_run)) = StatusCompleted \<or>
         Status (hd (rows world_stale_run)) = StatusFailed)"
    using completed_at_iff_finished[OF r3] m3 by blast
  then have c3: "CompletedAt (hd (rows world_stale_run)) \<noteq> None"
    by (simp add: s3)
  show ?thesis using r2 r3 s2 s3 c2 c3 by blast
qed

end
